theory Spec2Isabelle
  imports Complex_Main "HOL-Library.Multiset"
begin

section \<open>Data model\<close>

text \<open>
  The post controller works on Mongoose documents. An \<open>ObjectId\<close> is modelled as a
  natural number (only well-formed ids are in the model), a JavaScript number that counts
  something as an \<open>int\<close>, a date as its millisecond time stamp. A collection is the
  list of its documents in storage order.

  A reference field of a post (\<open>creator\<close>, \<open>meal\<close>, \<open>mealPlan\<close>) holds an id in
  storage and the referenced document (or null) after \<open>populate\<close>, so the record is
  polymorphic in what these three fields hold.
\<close>

type_synonym objectId = nat

datatype post_type = Normal | Meal | MealPlan | Workout

datatype aspect = square | landscape | portrait

record user =
  u_id :: objectId
  handle :: string
  profilePicture :: string
  role :: string

record meal =
  m_id :: objectId
  ingredients :: "string list"
  steps :: "string list"

record mealPlan =
  mp_id :: objectId

record ('c, 'm, 'mp) post =
  p_id :: objectId
  title :: string
  creator :: 'c
  tier :: "objectId option"
  description :: string
  media :: "string list"
  documents :: "string list"
  likedCount :: int
  commentCount :: int
  date :: int
  ptype :: post_type
  meal :: 'm
  mealPlan :: 'mp
  aspectRatio :: "aspect option"

type_synonym stored_post = "(objectId, objectId option, objectId option) post"

record like =
  l_postId :: objectId
  likedBy :: objectId

record comment =
  c_id :: objectId
  c_postId :: objectId
  userId :: objectId
  body :: string
  repliedTo :: "objectId option"
  replyCount :: int

record db =
  users :: "user list"
  posts :: "stored_post list"
  meals :: "meal list"
  mealPlans :: "mealPlan list"
  likes :: "like list"
  comments :: "comment list"

text \<open>
  What a handler does that a client or the store can observe: the documents it writes, in
  the order of the writes, and the response it sends. \<open>Next e\<close> is the handler's
  \<open>catch\<close> branch, which hands the exception to the error middleware.
\<close>

datatype js_error = TypeError | DuplicateKey

datatype 'a reply = Json 'a | NotFound string | Next js_error

datatype event =
    LikeSave like
  | LikeDelete like
  | PostSave stored_post
  | CommentSave comment
  | RespondPost "stored_post reply"
  | RespondComment "comment reply"

section \<open>Storage operations\<close>

text \<open>\<open>Model.findById\<close>: the document with that \<open>_id\<close>, or null.\<close>

definition findPostById :: "stored_post list \<Rightarrow> objectId \<Rightarrow> stored_post option" where
  "findPostById ps i = find (\<lambda>p. p_id p = i) ps"

definition findCommentById :: "comment list \<Rightarrow> objectId \<Rightarrow> comment option" where
  "findCommentById cs i = find (\<lambda>c. c_id c = i) cs"

definition findUserById :: "user list \<Rightarrow> objectId \<Rightarrow> user option" where
  "findUserById us i = find (\<lambda>u. u_id u = i) us"

definition findMealById :: "meal list \<Rightarrow> objectId \<Rightarrow> meal option" where
  "findMealById ms i = find (\<lambda>m. m_id m = i) ms"

definition findMealPlanById :: "mealPlan list \<Rightarrow> objectId \<Rightarrow> mealPlan option" where
  "findMealPlanById ms i = find (\<lambda>m. mp_id m = i) ms"

text \<open>\<open>Like.findOne({postId, likedBy})\<close>: the first matching document, or null.\<close>

definition findOneLike :: "like list \<Rightarrow> objectId \<Rightarrow> objectId \<Rightarrow> like option" where
  "findOneLike ls pid uid = find (\<lambda>l. l_postId l = pid \<and> likedBy l = uid) ls"

text \<open>
  \<open>doc.save()\<close> of a document that was loaded from the store writes it back over the
  stored document with the same \<open>_id\<close>.
\<close>

fun savePost :: "stored_post \<Rightarrow> stored_post list \<Rightarrow> stored_post list" where
  "savePost p [] = []"
| "savePost p (q # qs) = (if p_id q = p_id p then p # qs else q # savePost p qs)"

fun saveComment :: "comment \<Rightarrow> comment list \<Rightarrow> comment list" where
  "saveComment c [] = []"
| "saveComment c (d # ds) = (if c_id d = c_id c then c # ds else d # saveComment c ds)"

text \<open>
  \<open>Like.deleteOne({_id: like._id})\<close> removes the one document that \<open>findOne\<close>
  returned. A like's own \<open>_id\<close> is generated by the store and never read elsewhere, so
  the document is identified by its contents and position: the first equal one goes.
\<close>

definition deleteOneLike :: "like \<Rightarrow> like list \<Rightarrow> like list" where
  "deleteOneLike l ls = remove1 l ls"

section \<open>Likes\<close>

text \<open>
  \<open>likePost\<close> and \<open>unlikePost\<close>, called with \<open>req.params.id\<close> and
  \<open>req.user._id\<close> (the route runs \<open>requireToken\<close> first, so there is a user).
  Each returns its trace and the store it leaves.
\<close>

definition likePost :: "db \<Rightarrow> objectId \<Rightarrow> objectId \<Rightarrow> event list \<times> db" where
  "likePost s pid uid =
     (case findPostById (posts s) pid of
        None \<Rightarrow> ([RespondPost (NotFound ''Post not found'')], s)
      | Some post \<Rightarrow>
          (case findOneLike (likes s) pid uid of
             None \<Rightarrow>
               (let l = \<lparr>l_postId = pid, likedBy = uid\<rparr>;
                    post' = post\<lparr>likedCount := likedCount post + 1\<rparr>
                in ([LikeSave l, PostSave post', RespondPost (Json post')],
                    s\<lparr>likes := likes s @ [l], posts := savePost post' (posts s)\<rparr>))
           | Some l \<Rightarrow>
               ([PostSave post, RespondPost (Json post)],
                s\<lparr>posts := savePost post (posts s)\<rparr>)))"

definition unlikePost :: "db \<Rightarrow> objectId \<Rightarrow> objectId \<Rightarrow> event list \<times> db" where
  "unlikePost s pid uid =
     (case findPostById (posts s) pid of
        None \<Rightarrow> ([RespondPost (NotFound ''Post not found'')], s)
      | Some post \<Rightarrow>
          (case findOneLike (likes s) pid uid of
             Some l \<Rightarrow>
               (let post' = post\<lparr>likedCount := likedCount post - 1\<rparr>
                in ([LikeDelete l, PostSave post', RespondPost (Json post')],
                    s\<lparr>likes := deleteOneLike l (likes s), posts := savePost post' (posts s)\<rparr>))
           | None \<Rightarrow>
               ([PostSave post, RespondPost (Json post)],
                s\<lparr>posts := savePost post (posts s)\<rparr>)))"

text \<open>A sequence of like and unlike requests, served one after the other.\<close>

datatype like_op = DoLike objectId objectId | DoUnlike objectId objectId

fun like_step :: "db \<Rightarrow> like_op \<Rightarrow> db" where
  "like_step s (DoLike pid uid) = snd (likePost s pid uid)"
| "like_step s (DoUnlike pid uid) = snd (unlikePost s pid uid)"

definition run_likes :: "db \<Rightarrow> like_op list \<Rightarrow> db" where
  "run_likes s ops = foldl like_step s ops"

text \<open>The number of Like documents that reference a post, and of those of one user.\<close>

definition likes_of_post :: "db \<Rightarrow> objectId \<Rightarrow> nat" where
  "likes_of_post s pid = length (filter (\<lambda>l. l_postId l = pid) (likes s))"

definition likes_of_pair :: "db \<Rightarrow> objectId \<Rightarrow> objectId \<Rightarrow> nat" where
  "likes_of_pair s pid uid =
     length (filter (\<lambda>l. l_postId l = pid \<and> likedBy l = uid) (likes s))"

text \<open>
  The store keeps \<open>_id\<close> unique within a collection; the counter invariant of a post
  says that \<open>likedCount\<close> is the number of Like documents of the post.
\<close>

definition unique_post_ids :: "db \<Rightarrow> bool" where
  "unique_post_ids s = distinct (map p_id (posts s))"

definition liked_count_ok :: "db \<Rightarrow> bool" where
  "liked_count_ok s = list_all (\<lambda>p. likedCount p = int (likes_of_post s (p_id p))) (posts s)"

section \<open>Comments\<close>

text \<open>
  \<open>createComment\<close>, called with \<open>req.params.id\<close>, \<open>req.user._id\<close>, the text of
  \<open>req.body\<close>, \<open>req.query.repliedTo || undefined\<close> (\<open>None\<close> when the parameter is
  absent or empty) and the \<open>_id\<close> of the new document \<open>cid\<close>: the one in
  \<open>req.body\<close> when the client sends one, a generated one otherwise. The store refuses a
  second document with an \<open>_id\<close> it already holds, \<open>comment.save()\<close> throws, and the
  \<open>catch\<close> branch runs before anything was written.

  \<open>rplyComment\<close> is read only when \<open>repliedTo\<close> is set. The parent's counter is
  written after the response: it is the last event of the trace.
\<close>

definition createComment ::
  "db \<Rightarrow> objectId \<Rightarrow> objectId \<Rightarrow> string \<Rightarrow> objectId option \<Rightarrow> objectId \<Rightarrow> event list \<times> db"
where
  "createComment s pid uid text rq cid =
     (case findPostById (posts s) pid of
        None \<Rightarrow> ([RespondComment (NotFound ''Post not found'')], s)
      | Some post \<Rightarrow>
          (let rplyComment = (case rq of None \<Rightarrow> None | Some r \<Rightarrow> findCommentById (comments s) r)
           in if (rq \<noteq> None \<and> rplyComment = None) \<or>
                 (rq \<noteq> None \<and> (case rplyComment of None \<Rightarrow> False | Some rc \<Rightarrow> c_postId rc \<noteq> pid))
              then ([RespondComment (NotFound ''Comment not found'')], s)
              else
                (let c = \<lparr>c_id = cid, c_postId = pid, userId = uid, body = text,
                          repliedTo = rq, replyCount = 0\<rparr>
                 in if findCommentById (comments s) cid \<noteq> None
                    then ([RespondComment (Next DuplicateKey)], s)
                    else
                      (let post' = post\<lparr>commentCount := commentCount post + 1\<rparr>;
                           s' = s\<lparr>comments := comments s @ [c],
                                  posts := savePost post' (posts s)\<rparr>
                       in case rplyComment of
                            None \<Rightarrow>
                              ([CommentSave c, PostSave post', RespondComment (Json c)], s')
                          | Some rc \<Rightarrow>
                              (let rc' = rc\<lparr>replyCount := replyCount rc + 1\<rparr>
                               in ([CommentSave c, PostSave post', RespondComment (Json c),
                                    CommentSave rc'],
                                   s'\<lparr>comments := saveComment rc' (comments s')\<rparr>))))))"

text \<open>A sequence of comment requests, served one after the other.\<close>

record comment_req =
  rq_post :: objectId
  rq_user :: objectId
  rq_text :: string
  rq_repliedTo :: "objectId option"
  rq_id :: objectId

definition comment_step :: "db \<Rightarrow> comment_req \<Rightarrow> db" where
  "comment_step s r =
     snd (createComment s (rq_post r) (rq_user r) (rq_text r) (rq_repliedTo r) (rq_id r))"

definition run_comments :: "db \<Rightarrow> comment_req list \<Rightarrow> db" where
  "run_comments s rs = foldl comment_step s rs"

text \<open>The number of Comment documents whose \<open>repliedTo\<close> is a given comment.\<close>

definition replies_of :: "db \<Rightarrow> objectId \<Rightarrow> nat" where
  "replies_of s i = length (filter (\<lambda>c. repliedTo c = Some i) (comments s))"

text \<open>
  What the comment collection of a store satisfies: unique \<open>_id\<close>s, every
  \<open>repliedTo\<close> names a stored comment, and every \<open>replyCount\<close> is the number of
  replies.
\<close>

definition unique_comment_ids :: "db \<Rightarrow> bool" where
  "unique_comment_ids s = distinct (map c_id (comments s))"

definition replies_resolve :: "db \<Rightarrow> bool" where
  "replies_resolve s =
     list_all (\<lambda>c. case repliedTo c of None \<Rightarrow> True
                   | Some r \<Rightarrow> findCommentById (comments s) r \<noteq> None) (comments s)"

definition reply_count_ok :: "db \<Rightarrow> bool" where
  "reply_count_ok s = list_all (\<lambda>c. replyCount c = int (replies_of s (c_id c))) (comments s)"

text \<open>The same three facts, about the collection alone.\<close>

definition comments_inv :: "comment list \<Rightarrow> bool" where
  "comments_inv cs \<longleftrightarrow>
     distinct (map c_id cs) \<and>
     (\<forall>c\<in>set cs. \<forall>r. repliedTo c = Some r \<longrightarrow> r \<in> c_id ` set cs) \<and>
     (\<forall>c\<in>set cs. replyCount c = int (length (filter (\<lambda>d. repliedTo d = Some (c_id c)) cs)))"

section \<open>Reading one post\<close>

text \<open>
  A post with other documents in its three reference fields; \<open>populate\<close> puts the
  referenced document there, or null when the reference is null or names no document.
\<close>

definition set_refs :: "'c2 \<Rightarrow> 'm2 \<Rightarrow> 'p2 \<Rightarrow> ('c, 'm, 'p) post \<Rightarrow> ('c2, 'm2, 'p2) post" where
  "set_refs c m mp p =
     \<lparr>p_id = p_id p, title = title p, creator = c, tier = tier p,
      description = description p, media = media p, documents = documents p,
      likedCount = likedCount p, commentCount = commentCount p, date = date p,
      ptype = ptype p, meal = m, mealPlan = mp, aspectRatio = aspectRatio p\<rparr>"

type_synonym detailed_post = "(objectId, meal option, mealPlan option) post"

definition populate_meals :: "db \<Rightarrow> stored_post \<Rightarrow> detailed_post" where
  "populate_meals s p =
     set_refs (creator p)
       (case meal p of None \<Rightarrow> None | Some i \<Rightarrow> findMealById (meals s) i)
       (case mealPlan p of None \<Rightarrow> None | Some i \<Rightarrow> findMealPlanById (mealPlans s) i)
       p"

text \<open>
  \<open>getPostById\<close>, called with \<open>req.params.id\<close> and \<open>req.user\<close> (null for an
  anonymous request). \<open>post.meal.toObject()\<close> on a null meal throws a TypeError, which
  the \<open>catch\<close> branch hands on.
\<close>

definition getPostById :: "db \<Rightarrow> objectId \<Rightarrow> user option \<Rightarrow> detailed_post reply" where
  "getPostById s pid viewer =
     (case findPostById (posts s) pid of
        None \<Rightarrow> NotFound ''Post not found''
      | Some p \<Rightarrow>
          (let post = populate_meals s p
           in if tier post \<noteq> None \<and> viewer = None
              then (case meal post of
                      None \<Rightarrow> Next TypeError
                    | Some m \<Rightarrow> Json (post\<lparr>meal := Some (m\<lparr>ingredients := [], steps := []\<rparr>)\<rparr>))
              else Json post))"

section \<open>The feed\<close>

text \<open>
  JavaScript's \<open>/\<close> is not integer division: \<open>limit/2 + limit%2\<close> is \<open>k\<close> for
  \<open>limit = 2k\<close> and \<open>k + 1.5\<close> for \<open>limit = 2k + 1\<close>. Halves are exact in a double,
  so the number is modelled as a rational.
\<close>

definition half_of :: "nat \<Rightarrow> rat" where
  "half_of n = of_nat n / 2 + of_nat (n mod 2)"

text \<open>
  The query \<open>Post.find(filter).sort({date:-1}).limit(l).skip(k)\<close>. The store sorts, then
  skips, then limits, whatever the order of the calls; it takes the integer part of a
  fractional \<open>limit\<close> or \<open>skip\<close>, and a limit of 0 is no limit. Documents of equal
  date keep their storage order.
\<close>

definition sort_date_desc :: "stored_post list \<Rightarrow> stored_post list" where
  "sort_date_desc ps = sort_key (\<lambda>p. - date p) ps"

definition cursor_skip :: "rat \<Rightarrow> 'a list \<Rightarrow> 'a list" where
  "cursor_skip k xs = drop (nat \<lfloor>k\<rfloor>) xs"

definition cursor_limit :: "rat \<Rightarrow> 'a list \<Rightarrow> 'a list" where
  "cursor_limit l xs = (if nat \<lfloor>l\<rfloor> = 0 then xs else take (nat \<lfloor>l\<rfloor>) xs)"

definition find_posts :: "(stored_post \<Rightarrow> bool) \<Rightarrow> rat \<Rightarrow> rat \<Rightarrow> stored_post list \<Rightarrow> stored_post list" where
  "find_posts flt l k ps = cursor_limit l (cursor_skip k (sort_date_desc (filter flt ps)))"

type_synonym authored_post = "(user option, objectId option, objectId option) post"

definition populate_creator :: "db \<Rightarrow> stored_post \<Rightarrow> authored_post" where
  "populate_creator s p = set_refs (findUserById (users s) (creator p)) (meal p) (mealPlan p) p"

record feed_entry =
  fe_post :: stored_post
  locked :: bool
  userHandle :: string
  userProfilePicture :: string
  userRole :: string

text \<open>
  The \<open>map\<close> over the page: \<open>user._id\<close> on a null creator throws a TypeError, and
  the whole request ends in the \<open>catch\<close> branch.
\<close>

fun feed_entries :: "authored_post list \<Rightarrow> js_error + feed_entry list" where
  "feed_entries [] = Inr []"
| "feed_entries (post # ps) =
     (case creator post of
        None \<Rightarrow> Inl TypeError
      | Some user \<Rightarrow>
          (case feed_entries ps of
             Inl e \<Rightarrow> Inl e
           | Inr es \<Rightarrow>
               Inr (\<lparr>fe_post = set_refs (u_id user) (meal post) (mealPlan post) post,
                      locked = (tier post \<noteq> None),
                      userHandle = handle user,
                      userProfilePicture = profilePicture user,
                      userRole = role user\<rparr> # es)))"

text \<open>The two branches of \<open>getFeed\<close>, each as it is written.\<close>

definition feed_anonymous :: "db \<Rightarrow> nat \<Rightarrow> nat \<Rightarrow> feed_entry list reply" where
  "feed_anonymous s limit skip =
     (let ps = map (populate_creator s)
                 (find_posts (\<lambda>p. tier p = None) (half_of limit) (half_of skip) (posts s)) @
               map (populate_creator s)
                 (find_posts (\<lambda>p. tier p \<noteq> None) (half_of limit) (half_of skip) (posts s))
      in case feed_entries ps of Inl e \<Rightarrow> Next e | Inr es \<Rightarrow> Json es)"

definition feed_authenticated :: "db \<Rightarrow> nat \<Rightarrow> nat \<Rightarrow> feed_entry list reply" where
  "feed_authenticated s limit skip =
     (let ps = map (populate_creator s)
                 (find_posts (\<lambda>p. tier p = None) (half_of limit) (half_of skip) (posts s)) @
               map (populate_creator s)
                 (find_posts (\<lambda>p. tier p \<noteq> None) (half_of limit) (half_of skip) (posts s))
      in case feed_entries ps of Inl e \<Rightarrow> Next e | Inr es \<Rightarrow> Json es)"

text \<open>
  \<open>getFeed\<close>, called with \<open>req.user\<close> and the numbers of the query parameters
  \<open>limit\<close> and \<open>skip\<close> (\<open>None\<close> when absent). A parameter that is present is a
  non-empty string, which is truthy also when it reads \<open>0\<close>, so the defaults 25 and 0
  stand in for an absent parameter only.
\<close>

definition getFeed :: "db \<Rightarrow> user option \<Rightarrow> nat option \<Rightarrow> nat option \<Rightarrow> feed_entry list reply" where
  "getFeed s viewer qlimit qskip =
     (let limit = (case qlimit of None \<Rightarrow> 25 | Some n \<Rightarrow> n);
          skip = (case qskip of None \<Rightarrow> 0 | Some n \<Rightarrow> n)
      in if viewer = None then feed_anonymous s limit skip
         else feed_authenticated s limit skip)"

section \<open>Example stores\<close>

definition ann :: user where
  "ann = \<lparr>u_id = 10, handle = ''ann'', profilePicture = ''a.png'', role = ''Creator''\<rparr>"

definition bob :: user where
  "bob = \<lparr>u_id = 11, handle = ''bob'', profilePicture = ''b.png'', role = ''Creator''\<rparr>"

definition example_post :: stored_post where
  "example_post =
     \<lparr>p_id = 3, title = ''Soup'', creator = 10, tier = None, description = ''A soup'',
      media = [], documents = [], likedCount = 0, commentCount = 0, date = 1000,
      ptype = Normal, meal = None, mealPlan = None, aspectRatio = Some square\<rparr>"

definition gated_post :: stored_post where
  "gated_post = example_post\<lparr>p_id := 4, title := ''Stew'', tier := Some 20, date := 2000,
     ptype := Meal, meal := Some 30\<rparr>"

definition workout_post :: stored_post where
  "workout_post = example_post\<lparr>p_id := 5, title := ''Run'', tier := Some 20, date := 500,
     ptype := Workout\<rparr>"

definition example_meal :: meal where
  "example_meal = \<lparr>m_id = 30, ingredients = [''salt'', ''beef''], steps = [''boil'']\<rparr>"

definition example_comment :: comment where
  "example_comment =
     \<lparr>c_id = 50, c_postId = 4, userId = 10, body = ''hi'', repliedTo = None, replyCount = 0\<rparr>"

definition example_db :: db where
  "example_db =
     \<lparr>users = [ann], posts = [example_post], meals = [], mealPlans = [], likes = [],
      comments = []\<rparr>"

definition comment_db :: db where
  "comment_db = example_db\<lparr>posts := [example_post, gated_post], meals := [example_meal],
     comments := [example_comment]\<rparr>"

text \<open>Three free and three gated posts, stored in no particular order.\<close>

definition feed_db :: db where
  "feed_db = example_db\<lparr>
     users := [ann, bob],
     posts := [example_post, gated_post, workout_post,
               example_post\<lparr>p_id := 6, creator := 11, date := 3000\<rparr>,
               example_post\<lparr>p_id := 7, date := 2000\<rparr>,
               gated_post\<lparr>p_id := 8, creator := 11, date := 2500\<rparr>],
     meals := [example_meal]\<rparr>"

definition example_reqs :: "comment_req list" where
  "example_reqs =
     [\<lparr>rq_post = 4, rq_user = 10, rq_text = ''a'', rq_repliedTo = Some 50, rq_id = 51\<rparr>,
      \<lparr>rq_post = 4, rq_user = 10, rq_text = ''b'', rq_repliedTo = Some 50, rq_id = 52\<rparr>,
      \<lparr>rq_post = 3, rq_user = 10, rq_text = ''c'', rq_repliedTo = Some 50, rq_id = 53\<rparr>,
      \<lparr>rq_post = 4, rq_user = 10, rq_text = ''d'', rq_repliedTo = Some 51, rq_id = 54\<rparr>,
      \<lparr>rq_post = 4, rq_user = 10, rq_text = ''e'', rq_repliedTo = None, rq_id = 54\<rparr>]"

text \<open>Six free posts and no gated one.\<close>

definition six_free_db :: db where
  "six_free_db = example_db\<lparr>
     posts := [example_post,
               example_post\<lparr>p_id := 6, date := 3000\<rparr>,
               example_post\<lparr>p_id := 7, date := 2000\<rparr>,
               example_post\<lparr>p_id := 9, date := 4000\<rparr>,
               example_post\<lparr>p_id := 12, date := 5000\<rparr>,
               example_post\<lparr>p_id := 13, date := 6000\<rparr>]\<rparr>"

text \<open>The feed entry of a post and its creator.\<close>

definition entry_of :: "stored_post \<Rightarrow> user \<Rightarrow> feed_entry" where
  "entry_of p u = \<lparr>fe_post = p, locked = (tier p \<noteq> None), userHandle = handle u,
     userProfilePicture = profilePicture u, userRole = role u\<rparr>"

lemmas example_defs = comment_db_def feed_db_def six_free_db_def example_db_def example_post_def
  gated_post_def workout_post_def example_meal_def example_comment_def ann_def bob_def entry_of_def

section \<open>Properties of the store\<close>

lemma find_Some_D: "find P xs = Some x \<Longrightarrow> P x \<and> x \<in> set xs"
  by (induction xs) (auto split: if_splits)

lemma findPostById_Some: "findPostById ps i = Some p \<Longrightarrow> p_id p = i \<and> p \<in> set ps"
  unfolding findPostById_def by (drule find_Some_D) simp

lemma savePost_ids: "map p_id (savePost p ps) = map p_id ps"
  by (induction ps) auto

lemma savePost_map:
  "distinct (map p_id ps) \<Longrightarrow> savePost p ps = map (\<lambda>q. if p_id q = p_id p then p else q) ps"
proof (induction ps)
  case Nil
  then show ?case by simp
next
  case (Cons q qs)
  have "p_id q = p_id p \<Longrightarrow> map (\<lambda>q. if p_id q = p_id p then p else q) qs = qs"
    using Cons.prems by (intro map_idI) (auto simp: image_iff)
  with Cons show ?case by auto
qed

lemma savePost_same: "findPostById ps i = Some p \<Longrightarrow> savePost p ps = ps"
  unfolding findPostById_def by (induction ps) (auto split: if_splits dest: find_Some_D)

lemma findOneLike_Some:
  "findOneLike ls pid uid = Some l \<Longrightarrow> l \<in> set ls \<and> l_postId l = pid \<and> likedBy l = uid"
  unfolding findOneLike_def by (drule find_Some_D) simp

lemma findOneLike_None:
  "findOneLike ls pid uid = None \<Longrightarrow> filter (\<lambda>l. l_postId l = pid \<and> likedBy l = uid) ls = []"
  unfolding findOneLike_def by (auto simp: find_None_iff filter_empty_conv)

lemma filter_pos: "l \<in> set ls \<Longrightarrow> P l \<Longrightarrow> 0 < length (filter P ls)"
  by (induction ls) auto

lemma length_filter_remove1:
  "l \<in> set ls \<Longrightarrow> length (filter P (remove1 l ls)) = length (filter P ls) - (if P l then 1 else 0)"
proof (induction ls)
  case Nil
  then show ?case by simp
next
  case (Cons a ls)
  show ?case
  proof (cases "l = a")
    case True
    then show ?thesis by simp
  next
    case False
    with Cons.prems have m: "l \<in> set ls" by simp
    from Cons.IH [OF m] filter_pos [OF m, of P] False show ?thesis by auto
  qed
qed

lemma int_pred: "0 < (n::nat) \<Longrightarrow> m = n - 1 \<Longrightarrow> int m = int n - 1"
  by arith

lemma liked_count_ok_iff:
  "liked_count_ok s \<longleftrightarrow>
     (\<forall>p\<in>set (posts s). likedCount p = int (length (filter (\<lambda>l. l_postId l = p_id p) (likes s))))"
  by (simp add: liked_count_ok_def likes_of_post_def list_all_iff)

lemma likePost_unique: "unique_post_ids s \<Longrightarrow> unique_post_ids (snd (likePost s pid uid))"
  by (simp add: likePost_def unique_post_ids_def Let_def savePost_ids split: option.splits)

lemma unlikePost_unique: "unique_post_ids s \<Longrightarrow> unique_post_ids (snd (unlikePost s pid uid))"
  by (simp add: unlikePost_def unique_post_ids_def Let_def savePost_ids split: option.splits)

lemma likePost_ok:
  assumes u: "unique_post_ids s" and ok: "liked_count_ok s"
  shows "liked_count_ok (snd (likePost s pid uid))"
proof (cases "findPostById (posts s) pid")
  case None
  with ok show ?thesis by (simp add: likePost_def)
next
  case (Some post)
  note post = findPostById_Some [OF Some]
  show ?thesis
  proof (cases "findOneLike (likes s) pid uid")
    case None
    from u have sv: "savePost p (posts s) = map (\<lambda>q. if p_id q = p_id p then p else q) (posts s)" for p
      by (simp add: unique_post_ids_def savePost_map)
    from ok post show ?thesis
      by (auto simp: likePost_def Some None Let_def sv liked_count_ok_iff)
  next
    case (Some l)
    with \<open>findPostById (posts s) pid = Some post\<close> ok show ?thesis
      by (simp add: likePost_def savePost_same liked_count_ok_iff)
  qed
qed

lemma unlikePost_ok:
  assumes u: "unique_post_ids s" and ok: "liked_count_ok s"
  shows "liked_count_ok (snd (unlikePost s pid uid))"
proof (cases "findPostById (posts s) pid")
  case None
  with ok show ?thesis by (simp add: unlikePost_def)
next
  case (Some post)
  note post = findPostById_Some [OF Some]
  show ?thesis
  proof (cases "findOneLike (likes s) pid uid")
    case None
    with Some ok show ?thesis
      by (simp add: unlikePost_def savePost_same liked_count_ok_iff)
  next
    case (Some l)
    note l = findOneLike_Some [OF Some]
    from u have sv: "savePost p (posts s) = map (\<lambda>q. if p_id q = p_id p then p else q) (posts s)" for p
      by (simp add: unique_post_ids_def savePost_map)
    have pos: "0 < length (filter (\<lambda>l. l_postId l = pid) (likes s))"
      using filter_pos [of l "likes s" "\<lambda>l. l_postId l = pid"] l by simp
    have cnt: "int (length (filter (\<lambda>l. l_postId l = i) (remove1 l (likes s)))) =
          int (length (filter (\<lambda>l. l_postId l = i) (likes s))) - (if pid = i then 1 else 0)" for i
    proof (cases "pid = i")
      case True
      have "length (filter (\<lambda>l. l_postId l = i) (remove1 l (likes s))) =
          length (filter (\<lambda>l. l_postId l = i) (likes s)) - 1"
        using length_filter_remove1 [of l "likes s" "\<lambda>l. l_postId l = i"] l True by simp
      moreover have "0 < length (filter (\<lambda>l. l_postId l = i) (likes s))"
        using pos True by blast
      ultimately have "int (length (filter (\<lambda>l. l_postId l = i) (remove1 l (likes s)))) =
          int (length (filter (\<lambda>l. l_postId l = i) (likes s))) - 1"
        by (rule int_pred [rotated])
      with True show ?thesis by simp
    next
      case False
      then show ?thesis
        using length_filter_remove1 [of l "likes s" "\<lambda>l. l_postId l = i"] l by simp
    qed
    from ok post show ?thesis
      by (auto simp: unlikePost_def \<open>findPostById (posts s) pid = Some post\<close> Some Let_def sv
          liked_count_ok_iff deleteOneLike_def cnt)
  qed
qed

lemma like_step_inv:
  "unique_post_ids s \<Longrightarrow> liked_count_ok s \<Longrightarrow>
   unique_post_ids (like_step s x) \<and> liked_count_ok (like_step s x)"
  by (cases x) (simp_all add: likePost_unique likePost_ok unlikePost_unique unlikePost_ok)

lemma run_likes_inv:
  "unique_post_ids s \<Longrightarrow> liked_count_ok s \<Longrightarrow>
   unique_post_ids (run_likes s ops) \<and> liked_count_ok (run_likes s ops)"
  unfolding run_likes_def
proof (induction ops arbitrary: s)
  case Nil
  then show ?case by simp
next
  case (Cons x xs)
  from like_step_inv [OF Cons.prems] show ?case using Cons.IH by simp
qed


lemma findPostById_savePost:
  "findPostById ps i = Some p \<Longrightarrow> p_id p' = i \<Longrightarrow> findPostById (savePost p' ps) i = Some p'"
  unfolding findPostById_def by (induction ps) (auto split: if_splits)

lemma likes_of_pair_0: "likes_of_pair s pid uid = 0 \<longleftrightarrow> findOneLike (likes s) pid uid = None"
  by (auto simp: likes_of_pair_def findOneLike_def find_None_iff filter_empty_conv)

lemma findOneLike_append_new:
  "findOneLike ls pid uid = None \<Longrightarrow>
   findOneLike (ls @ [\<lparr>l_postId = pid, likedBy = uid\<rparr>]) pid uid = Some \<lparr>l_postId = pid, likedBy = uid\<rparr>"
  unfolding findOneLike_def by (induction ls) (auto split: if_splits)

text \<open>Neither handler ever leaves a second Like for a pair of post and user.\<close>

lemma likePost_pairs_unique:
  assumes "likes_of_pair s p u \<le> 1"
  shows "likes_of_pair (snd (likePost s pid uid)) p u \<le> 1"
proof (cases "findOneLike (likes s) pid uid")
  case None
  then have "p = pid \<and> u = uid \<Longrightarrow> likes_of_pair s p u = 0"
    by (simp add: likes_of_pair_0)
  with assms None show ?thesis
    by (auto simp: likePost_def likes_of_pair_def Let_def split: option.splits)
next
  case (Some l)
  with assms show ?thesis
    by (simp add: likePost_def likes_of_pair_def split: option.splits)
qed

lemma unlikePost_pairs_unique:
  assumes "likes_of_pair s p u \<le> 1"
  shows "likes_of_pair (snd (unlikePost s pid uid)) p u \<le> 1"
proof -
  have "length (filter P (remove1 l ls)) \<le> length (filter P ls)" for P and l :: like and ls
    by (induction ls) auto
  from this [of "\<lambda>l. l_postId l = p \<and> likedBy l = u"] assms show ?thesis
    by (auto simp: unlikePost_def likes_of_pair_def Let_def deleteOneLike_def
        intro: order_trans split: option.splits)
qed

section \<open>Likes: the counter and its records\<close>

text \<open>
  C1. Served one after the other, like and unlike requests keep the counter of every post
  equal to the number of Like documents that name the post: from a store where that holds
  (and \<open>_id\<close>s are unique), it holds after any finite sequence of requests, whoever
  the users are.
\<close>

theorem liked_count_invariant:
  assumes "unique_post_ids s" and "liked_count_ok s"
  shows "\<forall>p\<in>set (posts (run_likes s ops)).
           likedCount p = int (likes_of_post (run_likes s ops) (p_id p))"
  using run_likes_inv [OF assms, of ops]
  by (simp add: liked_count_ok_def list_all_iff)

lemma example_run:
  "run_likes example_db [DoLike 3 7, DoLike 3 8, DoUnlike 3 7, DoLike 2 7, DoLike 3 8] =
     example_db\<lparr>posts := [example_post\<lparr>likedCount := 1\<rparr>],
                 likes := [\<lparr>l_postId = 3, likedBy = 8\<rparr>]\<rparr>"
  by (simp add: run_likes_def likePost_def unlikePost_def example_db_def example_post_def
      findPostById_def findOneLike_def deleteOneLike_def Let_def)

theorem liked_count_invariant_witness:
  "unique_post_ids example_db \<and> liked_count_ok example_db \<and>
   map likedCount
     (posts (run_likes example_db [DoLike 3 7, DoLike 3 8, DoUnlike 3 7, DoLike 2 7, DoLike 3 8])) = [1] \<and>
   likes_of_post
     (run_likes example_db [DoLike 3 7, DoLike 3 8, DoUnlike 3 7, DoLike 2 7, DoLike 3 8]) 3 = 1"
proof -
  have u: "unique_post_ids example_db"
    by (simp add: unique_post_ids_def example_db_def)
  have ok: "liked_count_ok example_db"
    by (simp add: liked_count_ok_def likes_of_post_def example_db_def example_post_def)
  from liked_count_invariant [OF u ok, of "[DoLike 3 7, DoLike 3 8, DoUnlike 3 7, DoLike 2 7, DoLike 3 8]"]
  show ?thesis using u ok
    by (simp add: example_run example_post_def)
qed

text \<open>
  C2. Liking an existing post a second time as the same user changes nothing: the second
  call finds the Like, writes the post as it is (the trace still holds the \<open>PostSave\<close>
  and no \<open>LikeSave\<close>), answers with the post of the first call, and leaves the store
  of the first call, with exactly one Like for the pair. The first call ends with the same
  write and response. The store holds at most one Like for the pair to begin with, which
  both handlers preserve (\<open>likePost_pairs_unique\<close>, \<open>unlikePost_pairs_unique\<close>).
\<close>

theorem like_twice_idempotent:
  assumes post: "findPostById (posts s) pid = Some post"
    and uniq: "likes_of_pair s pid uid \<le> 1"
  shows "\<exists>p1. findPostById (posts (snd (likePost s pid uid))) pid = Some p1 \<and>
           (\<exists>t. fst (likePost s pid uid) = t @ [PostSave p1, RespondPost (Json p1)]) \<and>
           likePost (snd (likePost s pid uid)) pid uid =
             ([PostSave p1, RespondPost (Json p1)], snd (likePost s pid uid)) \<and>
           likes_of_pair (snd (likePost s pid uid)) pid uid = 1"
proof (cases "findOneLike (likes s) pid uid")
  case None
  let ?l = "\<lparr>l_postId = pid, likedBy = uid\<rparr>"
  let ?p = "post\<lparr>likedCount := likedCount post + 1\<rparr>"
  have id: "p_id ?p = pid" using findPostById_Some [OF post] by simp
  have s1: "likePost s pid uid =
      ([LikeSave ?l, PostSave ?p, RespondPost (Json ?p)],
       s\<lparr>likes := likes s @ [?l], posts := savePost ?p (posts s)\<rparr>)"
    by (simp add: likePost_def post None Let_def)
  have f: "findPostById (savePost ?p (posts s)) pid = Some ?p"
    by (rule findPostById_savePost [OF post id])
  have l: "findOneLike (likes s @ [?l]) pid uid = Some ?l"
    by (rule findOneLike_append_new [OF None])
  have sv: "savePost ?p (savePost ?p (posts s)) = savePost ?p (posts s)"
    by (rule savePost_same [OF f])
  have n: "likes_of_pair (s\<lparr>likes := likes s @ [?l], posts := savePost ?p (posts s)\<rparr>) pid uid = 1"
    using None by (simp add: likes_of_pair_def findOneLike_None)
  show ?thesis
    unfolding s1 by (rule exI [of _ ?p]) (simp add: f likePost_def l sv n)
next
  case (Some l)
  have s1: "likePost s pid uid = ([PostSave post, RespondPost (Json post)], s)"
    by (simp add: likePost_def post Some savePost_same [OF post])
  have "0 < likes_of_pair s pid uid"
    using Some likes_of_pair_0 [of s pid uid] by simp
  with uniq have n: "likes_of_pair s pid uid = 1" by simp
  show ?thesis
    unfolding s1 by (rule exI [of _ post]) (simp add: post s1 n)
qed

theorem like_twice_idempotent_witness:
  "findPostById (posts example_db) 3 = Some example_post \<and>
   likes_of_pair example_db 3 7 \<le> 1 \<and>
   (\<exists>p1. findPostById (posts (snd (likePost example_db 3 7))) 3 = Some p1 \<and>
      (\<exists>t. fst (likePost example_db 3 7) = t @ [PostSave p1, RespondPost (Json p1)]) \<and>
      likePost (snd (likePost example_db 3 7)) 3 7 =
        ([PostSave p1, RespondPost (Json p1)], snd (likePost example_db 3 7)) \<and>
      likes_of_pair (snd (likePost example_db 3 7)) 3 7 = 1)"
proof -
  have a: "findPostById (posts example_db) 3 = Some example_post"
    by (simp add: findPostById_def example_db_def example_post_def)
  have b: "likes_of_pair example_db 3 7 \<le> 1"
    by (simp add: likes_of_pair_def example_db_def)
  from like_twice_idempotent [OF a b] a b show ?thesis by simp
qed

text \<open>
  C7. \<open>unlikePost\<close> answers 404 and leaves the store alone when there is no post with
  that id; when the post exists and the user has no Like on it, it writes the post back
  unchanged and answers with it: the store is the same, counter and Like documents
  included.
\<close>

theorem unlike_missing_or_not_liked:
  "(findPostById (posts s) pid = None \<longrightarrow>
      unlikePost s pid uid = ([RespondPost (NotFound ''Post not found'')], s)) \<and>
   (\<forall>post. findPostById (posts s) pid = Some post \<and> likes_of_pair s pid uid = 0 \<longrightarrow>
      unlikePost s pid uid = ([PostSave post, RespondPost (Json post)], s))"
proof (intro conjI impI allI)
  assume "findPostById (posts s) pid = None"
  then show "unlikePost s pid uid = ([RespondPost (NotFound ''Post not found'')], s)"
    by (simp add: unlikePost_def)
next
  fix post
  assume h: "findPostById (posts s) pid = Some post \<and> likes_of_pair s pid uid = 0"
  then have "findOneLike (likes s) pid uid = None" by (simp add: likes_of_pair_0)
  with h savePost_same [of "posts s" pid post]
  show "unlikePost s pid uid = ([PostSave post, RespondPost (Json post)], s)"
    by (simp add: unlikePost_def)
qed

theorem unlike_missing_or_not_liked_witness:
  "findPostById (posts example_db) 5 = None \<and>
   unlikePost example_db 5 7 = ([RespondPost (NotFound ''Post not found'')], example_db) \<and>
   findPostById (posts example_db) 3 = Some example_post \<and>
   likes_of_pair example_db 3 7 = 0 \<and>
   unlikePost example_db 3 7 =
     ([PostSave example_post, RespondPost (Json example_post)], example_db)"
proof -
  have a: "findPostById (posts example_db) 5 = None"
    by (simp add: findPostById_def example_db_def example_post_def)
  have b: "findPostById (posts example_db) 3 = Some example_post"
    by (simp add: findPostById_def example_db_def example_post_def)
  have c: "likes_of_pair example_db 3 7 = 0"
    by (simp add: likes_of_pair_def example_db_def)
  from unlike_missing_or_not_liked [of example_db 5 7] unlike_missing_or_not_liked [of example_db 3 7]
    a b c
  show ?thesis by simp
qed

section \<open>Comments: replies and their counter\<close>

lemma findCommentById_Some: "findCommentById cs i = Some c \<Longrightarrow> c_id c = i \<and> c \<in> set cs"
  unfolding findCommentById_def by (drule find_Some_D) simp

lemma findCommentById_None_iff: "findCommentById cs i = None \<longleftrightarrow> i \<notin> c_id ` set cs"
  unfolding findCommentById_def by (auto simp: find_None_iff)

lemma saveComment_ids: "map c_id (saveComment c cs) = map c_id cs"
  by (induction cs) auto

lemma saveComment_map:
  "distinct (map c_id cs) \<Longrightarrow> saveComment c cs = map (\<lambda>d. if c_id d = c_id c then c else d) cs"
proof (induction cs)
  case Nil
  then show ?case by simp
next
  case (Cons d ds)
  have "c_id d = c_id c \<Longrightarrow> map (\<lambda>d. if c_id d = c_id c then c else d) ds = ds"
    using Cons.prems by (intro map_idI) (auto simp: image_iff)
  with Cons show ?case by auto
qed

lemma store_inv_iff:
  "unique_comment_ids s \<and> replies_resolve s \<and> reply_count_ok s \<longleftrightarrow> comments_inv (comments s)"
  by (auto simp: comments_inv_def unique_comment_ids_def replies_resolve_def reply_count_ok_def
      replies_of_def list_all_iff findCommentById_None_iff split: option.splits)

lemma no_replies_to_fresh:
  "comments_inv cs \<Longrightarrow> i \<notin> c_id ` set cs \<Longrightarrow> filter (\<lambda>d. repliedTo d = Some i) cs = []"
  by (auto simp: comments_inv_def filter_empty_conv)

lemma comments_inv_append:
  assumes inv: "comments_inv cs" and fresh: "c_id c \<notin> c_id ` set cs"
    and rc: "replyCount c = 0" and top: "repliedTo c = None"
  shows "comments_inv (cs @ [c])"
proof -
  have z: "filter (\<lambda>d. repliedTo d = Some (c_id c)) cs = []"
    by (rule no_replies_to_fresh [OF inv fresh])
  from inv fresh rc top z show ?thesis
    by (auto simp: comments_inv_def)
qed

lemma comments_inv_reply:
  assumes inv: "comments_inv cs" and fresh: "c_id c \<notin> c_id ` set cs"
    and rc: "replyCount c = 0" and rep: "repliedTo c = Some r"
    and par: "p \<in> set cs" "c_id p = r"
  shows "comments_inv (map (\<lambda>d. if c_id d = r then p\<lparr>replyCount := replyCount p + 1\<rparr> else d) (cs @ [c]))"
    (is "comments_inv (map ?f _)")
proof -
  have z: "filter (\<lambda>d. repliedTo d = Some (c_id c)) cs = []"
    by (rule no_replies_to_fresh [OF inv fresh])
  have ne: "c_id c \<noteq> r" using fresh par by auto
  have ids: "c_id (?f d) = c_id d" for d using par by simp
  have uniq: "d \<in> set cs \<Longrightarrow> c_id d = r \<Longrightarrow> d = p" for d
    using inv par by (auto simp: comments_inv_def distinct_map inj_on_def)
  have rp: "d \<in> set (cs @ [c]) \<Longrightarrow> repliedTo (?f d) = repliedTo d" for d
    using uniq ne by auto
  have cnt: "length (filter (\<lambda>e. repliedTo e = Some i) (map ?f (cs @ [c]))) =
      length (filter (\<lambda>e. repliedTo e = Some i) cs) + (if r = i then 1 else 0)" for i
  proof -
    have "filter (\<lambda>e. repliedTo e = Some i) (map ?f (cs @ [c])) =
        map ?f (filter (\<lambda>e. repliedTo (?f e) = Some i) (cs @ [c]))"
      by (simp only: filter_map comp_def)
    also have "filter (\<lambda>e. repliedTo (?f e) = Some i) (cs @ [c]) =
        filter (\<lambda>e. repliedTo e = Some i) (cs @ [c])"
      by (rule filter_cong [OF refl]) (simp only: rp)
    finally show ?thesis using rep by auto
  qed
  have d1: "distinct (map c_id (map ?f (cs @ [c])))"
  proof -
    have e: "map c_id (map ?f (cs @ [c])) = map c_id (cs @ [c])"
      by (simp only: map_map comp_def ids)
    have "distinct (map c_id (cs @ [c]))"
      using inv fresh by (simp add: comments_inv_def)
    then show ?thesis by (simp only: e)
  qed
  have set_ids: "c_id ` set (map ?f (cs @ [c])) = c_id ` set (cs @ [c])"
    by (simp only: set_map image_image ids)
  have d2: "\<forall>x\<in>set (map ?f (cs @ [c])). \<forall>q. repliedTo x = Some q \<longrightarrow>
      q \<in> c_id ` set (map ?f (cs @ [c]))"
  proof (intro ballI allI impI)
    fix x q
    assume x: "x \<in> set (map ?f (cs @ [c]))" and q: "repliedTo x = Some q"
    from x obtain d where d: "d \<in> set (cs @ [c])" "x = ?f d"
      unfolding set_map by (rule imageE)
    with q rp [OF d(1)] have "repliedTo d = Some q" by simp
    with d(1) inv rep par have "q \<in> c_id ` set (cs @ [c])"
      by (auto simp: comments_inv_def)
    then show "q \<in> c_id ` set (map ?f (cs @ [c]))" by (simp only: set_ids)
  qed
  have d3: "\<forall>x\<in>set (map ?f (cs @ [c])).
      replyCount x = int (length (filter (\<lambda>e. repliedTo e = Some (c_id x)) (map ?f (cs @ [c]))))"
  proof
    fix x
    assume x: "x \<in> set (map ?f (cs @ [c]))"
    from x obtain d where d: "d \<in> set (cs @ [c])" "x = ?f d"
      unfolding set_map by (rule imageE)
    show "replyCount x = int (length (filter (\<lambda>e. repliedTo e = Some (c_id x)) (map ?f (cs @ [c]))))"
    proof (cases "d = c")
      case True
      with d ne rc z show ?thesis unfolding cnt by simp
    next
      case False
      with d have m: "d \<in> set cs" by simp
      with inv have k: "replyCount d = int (length (filter (\<lambda>e. repliedTo e = Some (c_id d)) cs))"
        by (simp add: comments_inv_def)
      show ?thesis
      proof (cases "c_id d = r")
        case True
        with uniq [OF m] have "d = p" by simp
        with d k True par show ?thesis unfolding cnt by simp
      next
        case False
        with d k show ?thesis unfolding cnt by simp
      qed
    qed
  qed
  from d1 d2 d3 show ?thesis unfolding comments_inv_def by blast
qed

lemma createComment_inv:
  assumes inv: "comments_inv (comments s)"
  shows "comments_inv (comments (snd (createComment s pid uid text rq cid)))"
proof (cases "findPostById (posts s) pid")
  case None
  with inv show ?thesis by (simp add: createComment_def)
next
  case post: (Some post)
  let ?c = "\<lparr>c_id = cid, c_postId = pid, userId = uid, body = text, repliedTo = rq, replyCount = 0\<rparr>"
  show ?thesis
  proof (cases "findCommentById (comments s) cid")
    case (Some a)
    with inv post show ?thesis by (simp add: createComment_def Let_def)
  next
    case fresh: None
    then have fr: "c_id ?c \<notin> c_id ` set (comments s)" by (simp add: findCommentById_None_iff)
    show ?thesis
    proof (cases rq)
      case None
      from comments_inv_append [OF inv fr] None fresh post show ?thesis
        by (simp add: createComment_def Let_def)
    next
      case (Some r)
      show ?thesis
      proof (cases "findCommentById (comments s) r")
        case None
        with inv post Some show ?thesis by (simp add: createComment_def Let_def)
      next
        case par: (Some p)
        note p = findCommentById_Some [OF par]
        have dist: "distinct (map c_id (comments s @ [?c]))"
          using inv fr by (simp add: comments_inv_def)
        have sv: "saveComment (p\<lparr>replyCount := replyCount p + 1\<rparr>) (comments s @ [?c]) =
            map (\<lambda>d. if c_id d = r then p\<lparr>replyCount := replyCount p + 1\<rparr> else d) (comments s @ [?c])"
          using saveComment_map [OF dist, of "p\<lparr>replyCount := replyCount p + 1\<rparr>"] p by simp
        have "comments_inv (map (\<lambda>d. if c_id d = r then p\<lparr>replyCount := replyCount p + 1\<rparr> else d) (comments s @ [?c]))"
          using comments_inv_reply [OF inv fr, of r p] Some p by simp
        with sv inv post Some par fresh show ?thesis
          by (simp add: createComment_def Let_def)
      qed
    qed
  qed
qed

lemma run_comments_inv:
  "comments_inv (comments s) \<Longrightarrow> comments_inv (comments (run_comments s rs))"
  unfolding run_comments_def
proof (induction rs arbitrary: s)
  case Nil
  then show ?case by simp
next
  case (Cons r rs)
  from createComment_inv [OF Cons.prems] have "comments_inv (comments (comment_step s r))"
    by (simp add: comment_step_def)
  from Cons.IH [OF this] show ?case by simp
qed

lemma findCommentById_append:
  "findCommentById cs i = Some p \<Longrightarrow> findCommentById (cs @ ds) i = Some p"
  unfolding findCommentById_def by (induction cs) (auto split: if_splits)

lemma findCommentById_saveComment:
  "findCommentById cs i = Some p \<Longrightarrow> c_id p' = i \<Longrightarrow> findCommentById (saveComment p' cs) i = Some p'"
  unfolding findCommentById_def by (induction cs) (auto split: if_splits)

lemma reply_trace:
  assumes "RespondComment (Json c) \<in> set (fst (createComment s pid uid text (Some r) cid))"
  shows "\<exists>post' p. findCommentById (comments s) r = Some p \<and>
           fst (createComment s pid uid text (Some r) cid) =
             [CommentSave c, PostSave post', RespondComment (Json c),
              CommentSave (p\<lparr>replyCount := replyCount p + 1\<rparr>)] \<and>
           findCommentById (comments (snd (createComment s pid uid text (Some r) cid))) r =
             Some (p\<lparr>replyCount := replyCount p + 1\<rparr>)"
proof (cases "findPostById (posts s) pid")
  case None
  with assms show ?thesis by (simp add: createComment_def)
next
  case post: (Some post)
  show ?thesis
  proof (cases "findCommentById (comments s) r")
    case None
    with assms post show ?thesis by (simp add: createComment_def Let_def)
  next
    case par: (Some p)
    note p = findCommentById_Some [OF par]
    let ?p' = "p\<lparr>replyCount := replyCount p + 1\<rparr>"
    have f: "findCommentById (saveComment ?p' (comments s @ ds)) r = Some ?p'" for ds
      using findCommentById_saveComment [OF findCommentById_append [OF par], of ?p' ds] p by simp
    from assms post par show ?thesis
      by (auto simp: createComment_def Let_def f split: if_splits)
  qed
qed

text \<open>
  C3. A reply to a comment id that names no comment, or a comment of another post, is
  answered 404 ``Comment not found'' and nothing is written: the store is the one before
  the call, so there is no new Comment and the post's \<open>commentCount\<close> is what it was.
\<close>

theorem reply_to_foreign_comment_not_found:
  assumes "findPostById (posts s) pid = Some post"
    and "findCommentById (comments s) r = None \<or>
         (\<exists>rc. findCommentById (comments s) r = Some rc \<and> c_postId rc \<noteq> pid)"
  shows "createComment s pid uid text (Some r) cid =
           ([RespondComment (NotFound ''Comment not found'')], s)"
  using assms by (auto simp: createComment_def Let_def)

theorem reply_to_foreign_comment_not_found_witness:
  "findPostById (posts comment_db) 4 = Some gated_post \<and>
   findCommentById (comments comment_db) 77 = None \<and>
   createComment comment_db 4 10 ''x'' (Some 77) 60 =
     ([RespondComment (NotFound ''Comment not found'')], comment_db) \<and>
   findPostById (posts comment_db) 3 = Some example_post \<and>
   findCommentById (comments comment_db) 50 = Some example_comment \<and>
   c_postId example_comment \<noteq> 3 \<and>
   createComment comment_db 3 10 ''x'' (Some 50) 60 =
     ([RespondComment (NotFound ''Comment not found'')], comment_db)"
proof -
  have a: "findPostById (posts comment_db) 4 = Some gated_post"
    by (simp add: findPostById_def comment_db_def example_post_def gated_post_def)
  have b: "findCommentById (comments comment_db) 77 = None"
    by (simp add: findCommentById_def comment_db_def example_comment_def)
  have c: "findPostById (posts comment_db) 3 = Some example_post"
    by (simp add: findPostById_def comment_db_def example_post_def gated_post_def)
  have d: "findCommentById (comments comment_db) 50 = Some example_comment"
    by (simp add: findCommentById_def comment_db_def example_comment_def)
  have e: "c_postId example_comment \<noteq> 3"
    by (simp add: example_comment_def)
  from d e have f: "findCommentById (comments comment_db) 50 = None \<or>
      (\<exists>rc. findCommentById (comments comment_db) 50 = Some rc \<and> c_postId rc \<noteq> 3)"
    by simp
  from reply_to_foreign_comment_not_found [OF a disjI1 [OF b], of 10 "''x''" 60]
    reply_to_foreign_comment_not_found [OF c f, of 10 "''x''" 60] a b c d e
  show ?thesis by simp
qed

text \<open>
  C8. Served one after the other, comment requests keep \<open>replyCount\<close> of every comment
  (top-level or not) equal to the number of comments whose \<open>repliedTo\<close> is that
  comment, from any store whose comment collection is consistent. And whenever a reply
  request is answered with the new comment, its trace is exactly: the comment's write, the
  post's write, the response, and then the write of the parent with its counter
  incremented, which the store holds when the call is over.
\<close>

theorem reply_count_invariant:
  assumes "unique_comment_ids s" and "replies_resolve s" and "reply_count_ok s"
  shows "(\<forall>c\<in>set (comments (run_comments s rs)).
            replyCount c = int (replies_of (run_comments s rs) (c_id c))) \<and>
         (\<forall>pid uid text r cid c.
            RespondComment (Json c) \<in> set (fst (createComment s pid uid text (Some r) cid)) \<longrightarrow>
            (\<exists>post' p. findCommentById (comments s) r = Some p \<and>
               fst (createComment s pid uid text (Some r) cid) =
                 [CommentSave c, PostSave post', RespondComment (Json c),
                  CommentSave (p\<lparr>replyCount := replyCount p + 1\<rparr>)] \<and>
               findCommentById (comments (snd (createComment s pid uid text (Some r) cid))) r =
                 Some (p\<lparr>replyCount := replyCount p + 1\<rparr>)))"
proof -
  from assms have "comments_inv (comments s)" by (simp add: store_inv_iff [symmetric])
  then have "comments_inv (comments (run_comments s rs))" by (rule run_comments_inv)
  then have "reply_count_ok (run_comments s rs)" by (simp add: store_inv_iff [symmetric])
  then have a: "\<forall>c\<in>set (comments (run_comments s rs)).
            replyCount c = int (replies_of (run_comments s rs) (c_id c))"
    by (simp add: reply_count_ok_def list_all_iff)
  show ?thesis using a reply_trace by blast
qed

lemma example_comments_run:
  "map (\<lambda>c. (c_id c, replyCount c, replies_of (run_comments comment_db example_reqs) (c_id c)))
     (comments (run_comments comment_db example_reqs)) =
     [(50, 2, 2), (51, 1, 1), (52, 0, 0), (54, 0, 0)]"
  by (simp add: run_comments_def comment_step_def example_reqs_def comment_db_def example_db_def
      example_post_def gated_post_def example_comment_def createComment_def Let_def
      findPostById_def findCommentById_def replies_of_def)

lemma example_reply_trace:
  "fst (createComment comment_db 4 10 ''a'' (Some 50) 51) =
     [CommentSave \<lparr>c_id = 51, c_postId = 4, userId = 10, body = ''a'', repliedTo = Some 50, replyCount = 0\<rparr>,
      PostSave (gated_post\<lparr>commentCount := 1\<rparr>),
      RespondComment (Json \<lparr>c_id = 51, c_postId = 4, userId = 10, body = ''a'', repliedTo = Some 50, replyCount = 0\<rparr>),
      CommentSave (example_comment\<lparr>replyCount := 1\<rparr>)]"
  by (simp add: comment_db_def example_db_def example_post_def gated_post_def
      example_comment_def createComment_def Let_def findPostById_def findCommentById_def)

theorem reply_count_invariant_witness:
  "unique_comment_ids comment_db \<and> replies_resolve comment_db \<and> reply_count_ok comment_db \<and>
   map (\<lambda>c. (c_id c, replyCount c, replies_of (run_comments comment_db example_reqs) (c_id c)))
     (comments (run_comments comment_db example_reqs)) =
     [(50, 2, 2), (51, 1, 1), (52, 0, 0), (54, 0, 0)] \<and>
   fst (createComment comment_db 4 10 ''a'' (Some 50) 51) =
     [CommentSave \<lparr>c_id = 51, c_postId = 4, userId = 10, body = ''a'', repliedTo = Some 50, replyCount = 0\<rparr>,
      PostSave (gated_post\<lparr>commentCount := 1\<rparr>),
      RespondComment (Json \<lparr>c_id = 51, c_postId = 4, userId = 10, body = ''a'', repliedTo = Some 50, replyCount = 0\<rparr>),
      CommentSave (example_comment\<lparr>replyCount := 1\<rparr>)]"
proof -
  have a: "unique_comment_ids comment_db"
    by (simp add: unique_comment_ids_def comment_db_def example_comment_def)
  have b: "replies_resolve comment_db"
    by (simp add: replies_resolve_def comment_db_def example_comment_def)
  have c: "reply_count_ok comment_db"
    by (simp add: reply_count_ok_def replies_of_def comment_db_def example_comment_def)
  from reply_count_invariant [OF a b c, of example_reqs] a b c
  show ?thesis
    by (simp only: example_comments_run example_reply_trace simp_thms)
qed

section \<open>Reading one post: redaction\<close>

text \<open>
  C6. For a gated post whose meal reference resolves, an anonymous request gets the post
  with every field as stored (id, title, creator, tier, description, media, documents,
  both counters, date, type, aspect ratio), the meal plan populated, and the meal with its
  \<open>ingredients\<close> and \<open>steps\<close> emptied; a request with a user gets the same post with
  the meal as stored. The handler does not look at the post's type.
\<close>

theorem gated_meal_redacted_for_anonymous:
  assumes "findPostById (posts s) pid = Some p" and "tier p \<noteq> None"
    and "meal p = Some mid" and "findMealById (meals s) mid = Some m"
  shows "getPostById s pid None =
           Json \<lparr>p_id = p_id p, title = title p, creator = creator p, tier = tier p,
                 description = description p, media = media p, documents = documents p,
                 likedCount = likedCount p, commentCount = commentCount p, date = date p,
                 ptype = ptype p,
                 meal = Some \<lparr>m_id = m_id m, ingredients = [], steps = []\<rparr>,
                 mealPlan = (case mealPlan p of None \<Rightarrow> None
                             | Some i \<Rightarrow> findMealPlanById (mealPlans s) i),
                 aspectRatio = aspectRatio p\<rparr> \<and>
         getPostById s pid (Some u) =
           Json \<lparr>p_id = p_id p, title = title p, creator = creator p, tier = tier p,
                 description = description p, media = media p, documents = documents p,
                 likedCount = likedCount p, commentCount = commentCount p, date = date p,
                 ptype = ptype p,
                 meal = Some m,
                 mealPlan = (case mealPlan p of None \<Rightarrow> None
                             | Some i \<Rightarrow> findMealPlanById (mealPlans s) i),
                 aspectRatio = aspectRatio p\<rparr> \<and>
         getPostById s pid None =
           Json ((populate_meals s p)\<lparr>meal := Some (m\<lparr>ingredients := [], steps := []\<rparr>)\<rparr>) \<and>
         getPostById s pid (Some u) = Json (populate_meals s p) \<and>
         populate_meals s p =
           set_refs (creator p) (Some m)
             (case mealPlan p of None \<Rightarrow> None | Some i \<Rightarrow> findMealPlanById (mealPlans s) i) p"
  using assms by (simp add: getPostById_def populate_meals_def Let_def set_refs_def)

theorem gated_meal_redacted_for_anonymous_witness:
  "findPostById (posts feed_db) 4 = Some gated_post \<and> tier gated_post \<noteq> None \<and>
   meal gated_post = Some 30 \<and> findMealById (meals feed_db) 30 = Some example_meal \<and>
   gated_post =
     \<lparr>p_id = 4, title = ''Stew'', creator = 10, tier = Some 20, description = ''A soup'',
      media = [], documents = [], likedCount = 0, commentCount = 0, date = 2000,
      ptype = Meal, meal = Some 30, mealPlan = None, aspectRatio = Some square\<rparr> \<and>
   getPostById feed_db 4 None =
     Json \<lparr>p_id = 4, title = ''Stew'', creator = 10, tier = Some 20, description = ''A soup'',
           media = [], documents = [], likedCount = 0, commentCount = 0, date = 2000,
           ptype = Meal, meal = Some \<lparr>m_id = 30, ingredients = [], steps = []\<rparr>,
           mealPlan = None, aspectRatio = Some square\<rparr> \<and>
   getPostById feed_db 4 (Some ann) =
     Json \<lparr>p_id = 4, title = ''Stew'', creator = 10, tier = Some 20, description = ''A soup'',
           media = [], documents = [], likedCount = 0, commentCount = 0, date = 2000,
           ptype = Meal,
           meal = Some \<lparr>m_id = 30, ingredients = [''salt'', ''beef''], steps = [''boil'']\<rparr>,
           mealPlan = None, aspectRatio = Some square\<rparr>"
proof -
  have a: "findPostById (posts feed_db) 4 = Some gated_post"
    by (simp add: findPostById_def example_defs)
  have b: "tier gated_post \<noteq> None" by (simp add: example_defs)
  have c: "meal gated_post = Some 30" by (simp add: example_defs)
  have d: "findMealById (meals feed_db) 30 = Some example_meal"
    by (simp add: findMealById_def example_defs)
  have e: "gated_post =
     \<lparr>p_id = 4, title = ''Stew'', creator = 10, tier = Some 20, description = ''A soup'',
      media = [], documents = [], likedCount = 0, commentCount = 0, date = 2000,
      ptype = Meal, meal = Some 30, mealPlan = None, aspectRatio = Some square\<rparr>"
    by (simp add: gated_post_def example_post_def)
  note t = gated_meal_redacted_for_anonymous [OF a b c d, of ann]
  have f: "getPostById feed_db 4 None =
     Json \<lparr>p_id = 4, title = ''Stew'', creator = 10, tier = Some 20, description = ''A soup'',
           media = [], documents = [], likedCount = 0, commentCount = 0, date = 2000,
           ptype = Meal, meal = Some \<lparr>m_id = 30, ingredients = [], steps = []\<rparr>,
           mealPlan = None, aspectRatio = Some square\<rparr>"
    unfolding t [THEN conjunct1] by (simp add: gated_post_def example_post_def example_meal_def)
  have g: "getPostById feed_db 4 (Some ann) =
     Json \<lparr>p_id = 4, title = ''Stew'', creator = 10, tier = Some 20, description = ''A soup'',
           media = [], documents = [], likedCount = 0, commentCount = 0, date = 2000,
           ptype = Meal,
           meal = Some \<lparr>m_id = 30, ingredients = [''salt'', ''beef''], steps = [''boil'']\<rparr>,
           mealPlan = None, aspectRatio = Some square\<rparr>"
    unfolding t [THEN conjunct2, THEN conjunct1]
    by (simp add: gated_post_def example_post_def example_meal_def)
  from a b c d e f g show ?thesis by (intro conjI)
qed

text \<open>
  C10. For a gated post whose meal reference is null, an anonymous request does not get
  the post: reading the meal throws, and the request ends in the error path.
\<close>

theorem gated_post_without_meal_fails_for_anonymous:
  assumes "findPostById (posts s) pid = Some p" and "tier p \<noteq> None" and "meal p = None"
  shows "getPostById s pid None = Next TypeError"
  using assms by (simp add: getPostById_def populate_meals_def Let_def set_refs_def)

theorem gated_post_without_meal_fails_for_anonymous_witness:
  "findPostById (posts feed_db) 5 = Some workout_post \<and> tier workout_post \<noteq> None \<and>
   meal workout_post = None \<and> getPostById feed_db 5 None = Next TypeError"
proof -
  have a: "findPostById (posts feed_db) 5 = Some workout_post"
    by (simp add: findPostById_def example_defs)
  have b: "tier workout_post \<noteq> None" by (simp add: example_defs)
  have c: "meal workout_post = None" by (simp add: example_defs)
  from gated_post_without_meal_fails_for_anonymous [OF a b c] a b c
  show ?thesis by simp
qed

section \<open>The feed: page size, order and viewers\<close>

lemma floor_half_of: "nat \<lfloor>half_of n\<rfloor> = n div 2 + n mod 2"
proof -
  have "\<lfloor>half_of n\<rfloor> = \<lfloor>(of_nat n :: rat) / of_nat 2\<rfloor> + int (n mod 2)"
    unfolding half_of_def by (simp add: floor_add_int [symmetric])
  also have "\<dots> = int (n div 2) + int (n mod 2)"
    by (simp only: floor_divide_of_nat_eq)
  finally show ?thesis by simp
qed


lemma find_posts_nat:
  "find_posts flt (half_of limit) (half_of skip) ps =
     (if limit = 0 then drop (skip div 2 + skip mod 2) (sort_date_desc (filter flt ps))
      else take (limit div 2 + limit mod 2)
             (drop (skip div 2 + skip mod 2) (sort_date_desc (filter flt ps))))"
proof -
  have "limit div 2 + limit mod 2 = 0 \<longleftrightarrow> limit = 0" by presburger
  then show ?thesis
    by (simp add: find_posts_def cursor_limit_def cursor_skip_def floor_half_of)
qed

lemma find_posts_length:
  "0 < limit \<Longrightarrow>
   length (find_posts flt (half_of limit) (half_of skip) ps) \<le> limit div 2 + limit mod 2"
  by (simp add: find_posts_nat)

lemma feed_entries_length: "feed_entries ps = Inr es \<Longrightarrow> length es = length ps"
  by (induction ps arbitrary: es) (auto split: option.splits sum.splits)

lemma findUserById_Some: "findUserById us i = Some u \<Longrightarrow> u_id u = i \<and> u \<in> set us"
  unfolding findUserById_def by (drule find_Some_D) simp

lemma set_refs_same: "set_refs (creator p) (meal p) (mealPlan p) p = p"
  by (simp add: set_refs_def)

lemma feed_entries_resolved:
  assumes "\<forall>p\<in>set xs. findUserById (users s) (creator p) \<noteq> None"
  shows "\<exists>es. feed_entries (map (populate_creator s) xs) = Inr es \<and> map fe_post es = xs \<and>
           (\<forall>e\<in>set es. locked e = (tier (fe_post e) \<noteq> None))"
  using assms
proof (induction xs)
  case Nil
  then show ?case by simp
next
  case (Cons p xs)
  then obtain es where es: "feed_entries (map (populate_creator s) xs) = Inr es"
      "map fe_post es = xs" "\<forall>e\<in>set es. locked e = (tier (fe_post e) \<noteq> None)"
    by auto
  from Cons.prems obtain u where u: "findUserById (users s) (creator p) = Some u" by auto
  have id: "u_id u = creator p" using findUserById_Some [OF u] by simp
  have "set_refs (u_id u) (meal p) (mealPlan p) p = p"
    unfolding id by (rule set_refs_same)
  then have p: "set_refs (u_id u) (meal p) (mealPlan p) (set_refs (Some u) (meal p) (mealPlan p) p) = p"
    by (simp add: set_refs_def)
  have sel: "creator (populate_creator s p) = Some u" "meal (populate_creator s p) = meal p"
      "mealPlan (populate_creator s p) = mealPlan p" "tier (populate_creator s p) = tier p"
    by (simp_all add: populate_creator_def set_refs_def u)
  have pc: "populate_creator s p = set_refs (Some u) (meal p) (mealPlan p) p"
    by (simp add: populate_creator_def u)
  show ?case using es by (simp add: sel) (simp add: pc p)
qed

lemma sort_date_desc_sorted: "sorted_wrt (\<lambda>a b. date b \<le> date a) (sort_date_desc ps)"
proof -
  have "sorted (map (\<lambda>p. - date p) (sort_date_desc ps))"
    unfolding sort_date_desc_def by (rule sorted_sort_key)
  then show ?thesis by (simp add: sorted_map)
qed

lemma sort_date_desc_mset: "mset (sort_date_desc ps) = mset ps"
  by (simp add: sort_date_desc_def)

lemma getFeed_unfold:
  "getFeed s v qlimit qskip =
     (let limit = (case qlimit of None \<Rightarrow> 25 | Some n \<Rightarrow> n);
          skip = (case qskip of None \<Rightarrow> 0 | Some n \<Rightarrow> n)
      in case feed_entries
                (map (populate_creator s)
                   (find_posts (\<lambda>p. tier p = None) (half_of limit) (half_of skip) (posts s)) @
                 map (populate_creator s)
                   (find_posts (\<lambda>p. tier p \<noteq> None) (half_of limit) (half_of skip) (posts s)))
         of Inl e \<Rightarrow> Next e | Inr es \<Rightarrow> Json es)"
  by (simp add: getFeed_def feed_anonymous_def feed_authenticated_def Let_def)

text \<open>
  C4, as amended. For every limit and skip (25 and 0 when absent), \<open>getFeed\<close> queries
  the free bucket and the gated bucket each with the numbers \<open>limit/2 + limit%2\<close> and
  \<open>skip/2 + skip%2\<close>, whose integer parts, which the store applies, are
  \<open>limit div 2 + limit mod 2\<close> and \<open>skip div 2 + skip mod 2\<close>. Both buckets
  get the rounded-up half, so for a limit greater than 0 a page holds at most
  \<open>limit + limit mod 2\<close> entries: at most \<open>limit\<close> for an even limit, up to
  \<open>limit + 1\<close> for an odd one.
\<close>

theorem feed_page_bounds:
  assumes l: "limit = (case qlimit of None \<Rightarrow> 25 | Some n \<Rightarrow> n)"
    and k: "skip = (case qskip of None \<Rightarrow> 0 | Some n \<Rightarrow> n)"
  shows "getFeed s v qlimit qskip =
           (case feed_entries
                   (map (populate_creator s)
                      (find_posts (\<lambda>p. tier p = None) (half_of limit) (half_of skip) (posts s)) @
                    map (populate_creator s)
                      (find_posts (\<lambda>p. tier p \<noteq> None) (half_of limit) (half_of skip) (posts s)))
            of Inl e \<Rightarrow> Next e | Inr es \<Rightarrow> Json es) \<and>
         nat \<lfloor>half_of limit\<rfloor> = limit div 2 + limit mod 2 \<and>
         nat \<lfloor>half_of skip\<rfloor> = skip div 2 + skip mod 2 \<and>
         (\<forall>es. 0 < limit \<and> getFeed s v qlimit qskip = Json es \<longrightarrow>
               length es \<le> limit + limit mod 2)"
proof (intro conjI allI impI)
  let ?ps = "map (populate_creator s)
                   (find_posts (\<lambda>p. tier p = None) (half_of limit) (half_of skip) (posts s)) @
                 map (populate_creator s)
                   (find_posts (\<lambda>p. tier p \<noteq> None) (half_of limit) (half_of skip) (posts s))"
  show q: "getFeed s v qlimit qskip =
      (case feed_entries ?ps of Inl e \<Rightarrow> Next e | Inr es \<Rightarrow> Json es)"
    unfolding getFeed_unfold l [symmetric] k [symmetric] Let_def by (rule refl)
  show "nat \<lfloor>half_of limit\<rfloor> = limit div 2 + limit mod 2" by (rule floor_half_of)
  show "nat \<lfloor>half_of skip\<rfloor> = skip div 2 + skip mod 2" by (rule floor_half_of)
  fix es
  assume h: "0 < limit \<and> getFeed s v qlimit qskip = Json es"
  then have pos: "0 < limit" by simp
  from h have "feed_entries ?ps = Inr es"
    unfolding q by (simp split: sum.splits)
  then have "length es = length ?ps" by (rule feed_entries_length)
  also have "\<dots> \<le> (limit div 2 + limit mod 2) + (limit div 2 + limit mod 2)"
    unfolding length_append length_map
    by (intro add_mono find_posts_length pos)
  also have "\<dots> = limit + limit mod 2" by presburger
  finally show "length es \<le> limit + limit mod 2" .
qed

lemma feed_of_two_limit_1:
  "getFeed comment_db None (Some 1) None = Json [entry_of example_post ann, entry_of gated_post ann]"
  by (simp add: getFeed_unfold find_posts_nat sort_date_desc_def populate_creator_def
      findUserById_def set_refs_def example_defs)

theorem feed_page_bounds_witness:
  "(1::nat) = (case Some 1 of None \<Rightarrow> 25 | Some n \<Rightarrow> n) \<and>
   (0::nat) = (case None of None \<Rightarrow> 0 | Some n \<Rightarrow> n) \<and> (0::nat) < 1 \<and>
   getFeed comment_db None (Some 1) None = Json [entry_of example_post ann, entry_of gated_post ann] \<and>
   nat \<lfloor>half_of 1\<rfloor> = 1 div 2 + 1 mod 2 \<and>
   length [entry_of example_post ann, entry_of gated_post ann] \<le> 1 + 1 mod 2"
proof -
  have a: "(1::nat) = (case Some 1 of None \<Rightarrow> 25 | Some n \<Rightarrow> n)" by simp
  have b: "(0::nat) = (case None of None \<Rightarrow> 0 | Some n \<Rightarrow> n)" by simp
  from feed_page_bounds [OF a b, of comment_db None] feed_of_two_limit_1
  show ?thesis by simp
qed

text \<open>
  The claim as it stands fails at limit 1: the number passed to the store is 3/2, and with
  one free and one gated post the page has two entries.
\<close>

theorem feed_limit_counterexample:
  "half_of 1 = 3 / 2 \<and>
   getFeed comment_db None (Some 1) None = Json [entry_of example_post ann, entry_of gated_post ann] \<and>
   \<not> length [entry_of example_post ann, entry_of gated_post ann] \<le> 1"
  using feed_of_two_limit_1 by (simp add: half_of_def)

text \<open>
  A limit of 0 reaches the store as 0, which is no limit: the page holds every post, which
  is why the bound above is stated for a limit greater than 0.
\<close>

lemma feed_limit_zero_is_no_limit:
  "getFeed comment_db None (Some 0) None =
     Json [entry_of example_post ann, entry_of gated_post ann]"
  by (simp add: getFeed_unfold find_posts_nat sort_date_desc_def populate_creator_def
      findUserById_def set_refs_def example_defs)

text \<open>
  C5, as amended. Each bucket is cut to its own half of the page, whatever the other bucket
  holds. When every creator resolves, nothing is skipped and the free posts and the gated
  posts each number at most \<open>limit div 2 + limit mod 2\<close> (as 3 free and 3 gated posts
  do for limit 10), the feed is all free posts by date descending followed by all gated
  posts by date descending, not sorted again, each entry carrying the stored post, and
  \<open>locked\<close> says whether the post has a tier.
\<close>

theorem feed_free_then_gated:
  assumes creators: "\<forall>p\<in>set (posts s). findUserById (users s) (creator p) \<noteq> None"
    and l: "limit = (case qlimit of None \<Rightarrow> 25 | Some n \<Rightarrow> n)"
    and k: "(case qskip of None \<Rightarrow> 0 | Some n \<Rightarrow> n) = (0::nat)"
    and fit_free: "length (filter (\<lambda>p. tier p = None) (posts s)) \<le> limit div 2 + limit mod 2"
    and fit_gated: "length (filter (\<lambda>p. tier p \<noteq> None) (posts s)) \<le> limit div 2 + limit mod 2"
  shows "\<exists>es. getFeed s viewer qlimit qskip = Json es \<and>
           map fe_post es = sort_date_desc (filter (\<lambda>p. tier p = None) (posts s)) @
                            sort_date_desc (filter (\<lambda>p. tier p \<noteq> None) (posts s)) \<and>
           sorted_wrt (\<lambda>a b. date b \<le> date a) (sort_date_desc (filter (\<lambda>p. tier p = None) (posts s))) \<and>
           sorted_wrt (\<lambda>a b. date b \<le> date a) (sort_date_desc (filter (\<lambda>p. tier p \<noteq> None) (posts s))) \<and>
           mset (sort_date_desc (filter (\<lambda>p. tier p = None) (posts s))) =
             mset (filter (\<lambda>p. tier p = None) (posts s)) \<and>
           mset (sort_date_desc (filter (\<lambda>p. tier p \<noteq> None) (posts s))) =
             mset (filter (\<lambda>p. tier p \<noteq> None) (posts s)) \<and>
           (\<forall>e\<in>set es. locked e = (tier (fe_post e) \<noteq> None))"
proof -
  let ?free = "sort_date_desc (filter (\<lambda>p. tier p = None) (posts s))"
  let ?gated = "sort_date_desc (filter (\<lambda>p. tier p \<noteq> None) (posts s))"
  have len: "length (sort_date_desc xs) = length xs" for xs
    by (simp add: sort_date_desc_def)
  have f: "find_posts (\<lambda>p. tier p = None) (half_of limit) (half_of 0) (posts s) = ?free"
    using fit_free by (simp add: find_posts_nat len)
  have g: "find_posts (\<lambda>p. tier p \<noteq> None) (half_of limit) (half_of 0) (posts s) = ?gated"
    using fit_gated by (simp add: find_posts_nat len)
  have sub: "set (?free @ ?gated) \<subseteq> set (posts s)"
    by (auto simp: sort_date_desc_def)
  with creators have "\<forall>p\<in>set (?free @ ?gated). findUserById (users s) (creator p) \<noteq> None"
    by blast
  from feed_entries_resolved [OF this] obtain es where
    es: "feed_entries (map (populate_creator s) (?free @ ?gated)) = Inr es"
      "map fe_post es = ?free @ ?gated" "\<forall>e\<in>set es. locked e = (tier (fe_post e) \<noteq> None)"
    by blast
  have "getFeed s viewer qlimit qskip = Json es"
    unfolding getFeed_unfold l [symmetric] k Let_def f g
    using es(1) by simp
  with es(2,3) show ?thesis
    by (intro exI [of _ es]) (simp add: sort_date_desc_sorted sort_date_desc_mset)
qed

lemma feed_of_six:
  "getFeed feed_db None (Some 10) (Some 0) =
     Json [entry_of (example_post\<lparr>p_id := 6, creator := 11, date := 3000\<rparr>) bob,
           entry_of (example_post\<lparr>p_id := 7, date := 2000\<rparr>) ann,
           entry_of example_post ann,
           entry_of (gated_post\<lparr>p_id := 8, creator := 11, date := 2500\<rparr>) bob,
           entry_of gated_post ann,
           entry_of workout_post ann]"
  by (simp add: getFeed_unfold find_posts_nat sort_date_desc_def populate_creator_def
      findUserById_def set_refs_def example_defs)

theorem feed_free_then_gated_witness:
  "list_all (\<lambda>p. findUserById (users feed_db) (creator p) \<noteq> None) (posts feed_db) \<and>
   length (filter (\<lambda>p. tier p = None) (posts feed_db)) = 3 \<and>
   length (filter (\<lambda>p. tier p \<noteq> None) (posts feed_db)) = 3 \<and>
   getFeed feed_db None (Some 10) (Some 0) =
     Json [entry_of (example_post\<lparr>p_id := 6, creator := 11, date := 3000\<rparr>) bob,
           entry_of (example_post\<lparr>p_id := 7, date := 2000\<rparr>) ann,
           entry_of example_post ann,
           entry_of (gated_post\<lparr>p_id := 8, creator := 11, date := 2500\<rparr>) bob,
           entry_of gated_post ann,
           entry_of workout_post ann] \<and>
   sort_date_desc (filter (\<lambda>p. tier p = None) (posts feed_db)) =
     [example_post\<lparr>p_id := 6, creator := 11, date := 3000\<rparr>,
      example_post\<lparr>p_id := 7, date := 2000\<rparr>, example_post] \<and>
   sort_date_desc (filter (\<lambda>p. tier p \<noteq> None) (posts feed_db)) =
     [gated_post\<lparr>p_id := 8, creator := 11, date := 2500\<rparr>, gated_post, workout_post]"
proof -
  have a: "\<forall>p\<in>set (posts feed_db). findUserById (users feed_db) (creator p) \<noteq> None"
    by (simp add: findUserById_def example_defs)
  have b: "(10::nat) = (case Some 10 of None \<Rightarrow> 25 | Some n \<Rightarrow> n)" by simp
  have c: "(case Some 0 of None \<Rightarrow> 0 | Some n \<Rightarrow> n) = (0::nat)" by simp
  have d: "length (filter (\<lambda>p. tier p = None) (posts feed_db)) = 3"
    by (simp add: example_defs)
  have e: "length (filter (\<lambda>p. tier p \<noteq> None) (posts feed_db)) = 3"
    by (simp add: example_defs)
  have d': "length (filter (\<lambda>p. tier p = None) (posts feed_db)) \<le> 10 div 2 + 10 mod 2"
    unfolding d by simp
  have e': "length (filter (\<lambda>p. tier p \<noteq> None) (posts feed_db)) \<le> 10 div 2 + 10 mod 2"
    unfolding e by simp
  have f: "sort_date_desc (filter (\<lambda>p. tier p = None) (posts feed_db)) =
     [example_post\<lparr>p_id := 6, creator := 11, date := 3000\<rparr>,
      example_post\<lparr>p_id := 7, date := 2000\<rparr>, example_post]"
    by (simp add: sort_date_desc_def example_defs)
  have g: "sort_date_desc (filter (\<lambda>p. tier p \<noteq> None) (posts feed_db)) =
     [gated_post\<lparr>p_id := 8, creator := 11, date := 2500\<rparr>, gated_post, workout_post]"
    by (simp add: sort_date_desc_def example_defs)
  from feed_free_then_gated [OF a b c d' e', of None] a d e f g feed_of_six
  show ?thesis by (simp add: list_all_iff)
qed

text \<open>
  The claim as it stands fails when the posts fit the page but one bucket does not fit its
  half: of six free posts and no gated one, with limit 10 and skip 0, the feed holds the
  five newest, and the oldest free post is not returned.
\<close>

lemma feed_of_six_free:
  "getFeed six_free_db None (Some 10) (Some 0) =
     Json [entry_of (example_post\<lparr>p_id := 13, date := 6000\<rparr>) ann,
           entry_of (example_post\<lparr>p_id := 12, date := 5000\<rparr>) ann,
           entry_of (example_post\<lparr>p_id := 9, date := 4000\<rparr>) ann,
           entry_of (example_post\<lparr>p_id := 6, date := 3000\<rparr>) ann,
           entry_of (example_post\<lparr>p_id := 7, date := 2000\<rparr>) ann]"
  by (simp add: getFeed_unfold find_posts_nat sort_date_desc_def populate_creator_def
      findUserById_def set_refs_def example_defs)

theorem feed_bucket_counterexample:
  "length (posts six_free_db) = 6 \<and>
   length (filter (\<lambda>p. tier p = None) (posts six_free_db)) = 6 \<and>
   filter (\<lambda>p. tier p \<noteq> None) (posts six_free_db) = [] \<and>
   list_all (\<lambda>p. findUserById (users six_free_db) (creator p) \<noteq> None) (posts six_free_db) \<and>
   getFeed six_free_db None (Some 10) (Some 0) =
     Json [entry_of (example_post\<lparr>p_id := 13, date := 6000\<rparr>) ann,
           entry_of (example_post\<lparr>p_id := 12, date := 5000\<rparr>) ann,
           entry_of (example_post\<lparr>p_id := 9, date := 4000\<rparr>) ann,
           entry_of (example_post\<lparr>p_id := 6, date := 3000\<rparr>) ann,
           entry_of (example_post\<lparr>p_id := 7, date := 2000\<rparr>) ann] \<and>
   example_post \<in> set (filter (\<lambda>p. tier p = None) (posts six_free_db)) \<and>
   example_post \<notin> fe_post `
     set [entry_of (example_post\<lparr>p_id := 13, date := 6000\<rparr>) ann,
          entry_of (example_post\<lparr>p_id := 12, date := 5000\<rparr>) ann,
          entry_of (example_post\<lparr>p_id := 9, date := 4000\<rparr>) ann,
          entry_of (example_post\<lparr>p_id := 6, date := 3000\<rparr>) ann,
          entry_of (example_post\<lparr>p_id := 7, date := 2000\<rparr>) ann]"
  using feed_of_six_free by (simp add: findUserById_def example_defs)

text \<open>
  C9. The two branches of \<open>getFeed\<close> compute the same response: the feed does not
  depend on the viewer.
\<close>

theorem feed_same_for_all_viewers:
  "feed_anonymous s limit skip = feed_authenticated s limit skip \<and>
   getFeed s None qlimit qskip = getFeed s (Some u) qlimit qskip"
  by (simp add: getFeed_def feed_anonymous_def feed_authenticated_def)

theorem feed_same_for_all_viewers_witness:
  "getFeed feed_db None (Some 10) (Some 0) = getFeed feed_db (Some ann) (Some 10) (Some 0)"
  using feed_same_for_all_viewers [of feed_db 10 0 "Some 10" "Some 0" ann] by simp

end
